theory Spec2Isabelle
  imports Main "HOL-Library.Sublist" "HOL-Library.Word"
begin

section \<open>Go strings\<close>

text \<open>
  A Go string is a sequence of bytes; \<open>string\<close> (a list of 8-bit characters) models it.
  The functions of package \<open>strings\<close> used by \<open>utils/mount/overlay2.go\<close> follow, byte by
  byte as the Go library computes them.
\<close>

text \<open>
  \<open>strings.Index(s, substr)\<close>: the index of the first instance of \<open>substr\<close> in \<open>s\<close>, or -1
  (here \<open>None\<close>) when there is none.
\<close>

fun Index :: "string \<Rightarrow> string \<Rightarrow> nat option" where
  "Index [] substr = (if substr = [] then Some 0 else None)"
| "Index (c # s) substr =
     (if prefix substr (c # s) then Some 0 else map_option Suc (Index s substr))"

text \<open>\<open>strings.Contains(s, substr)\<close> is \<open>Index(s, substr) >= 0\<close>.\<close>

definition Contains :: "string \<Rightarrow> string \<Rightarrow> bool" where
  "Contains s substr = (Index s substr \<noteq> None)"

lemma Index_bound: "Index s sep = Some m \<Longrightarrow> m + length sep \<le> length s"
proof (induction s arbitrary: m)
  case Nil
  then show ?case by (simp split: if_splits)
next
  case (Cons c s)
  show ?case
  proof (cases "prefix sep (c # s)")
    case True
    then have "length sep \<le> length (c # s)" by (rule prefix_length_le)
    with True Cons.prems show ?thesis by simp
  next
    case False
    with Cons.prems obtain k where "Index s sep = Some k" "m = Suc k" by auto
    with Cons.IH show ?thesis by fastforce
  qed
qed

text \<open>
  \<open>strings.Split(s, sep)\<close> (\<open>genSplit\<close> with no limit): with an empty separator the string
  is exploded into its characters; otherwise the string is cut at each instance of the
  separator, found from left to right by \<open>Index\<close>, and the rest after the last instance
  is the last field. (The explosion is per UTF-8 sequence in Go; the program never
  splits on an empty separator.)
\<close>

function Split :: "string \<Rightarrow> string \<Rightarrow> string list" where
  "Split s sep =
     (if sep = [] then map (\<lambda>c. [c]) s
      else case Index s sep of
             None \<Rightarrow> [s]
           | Some m \<Rightarrow> take m s # Split (drop (m + length sep) s) sep)"
  by pat_completeness auto
termination
proof (relation "measure (\<lambda>(s, sep). length s)")
  show "wf (measure (\<lambda>(s, sep). length s))" by simp
next
  fix s sep :: string and m
  assume "sep \<noteq> []" and "Index s sep = Some m"
  then have "m + length sep \<le> length s" and "0 < length sep"
    using Index_bound [of s sep m] by simp_all
  then have "length s - (m + length sep) < length s" by arith
  then show "((drop (m + length sep) s, sep), (s, sep)) \<in> measure (\<lambda>(s, sep). length s)"
    by simp
qed

declare Split.simps [simp del]

text \<open>\<open>strings.Join(elems, sep)\<close>.\<close>

fun Join :: "string list \<Rightarrow> string \<Rightarrow> string" where
  "Join [] sep = []"
| "Join [e] sep = e"
| "Join (e # es) sep = e @ sep @ Join es sep"


text \<open>
  \<open>strings.TrimSpace(s)\<close> removes all leading and trailing white space, as defined by
  Unicode (\<open>unicode.IsSpace\<close>). On the bytes of the string these are the six ASCII
  characters tab, line feed, vertical tab, form feed, carriage return and space, and the
  UTF-8 encodings of U+0085, U+00A0, U+1680, U+2000..U+200A, U+2028, U+2029, U+202F,
  U+205F and U+3000.
\<close>

definition asciiSpace :: "char \<Rightarrow> bool" where
  "asciiSpace c = (c \<in> set [CHR 0x09, CHR 0x0A, CHR 0x0B, CHR 0x0C, CHR 0x0D, CHR 0x20])"

definition spaceRunes :: "string list" where
  "spaceRunes =
     [[CHR 0xC2, CHR 0x85], [CHR 0xC2, CHR 0xA0], [CHR 0xE1, CHR 0x9A, CHR 0x80]]
     @ map (\<lambda>b. [CHR 0xE2, CHR 0x80, b])
         [CHR 0x80, CHR 0x81, CHR 0x82, CHR 0x83, CHR 0x84, CHR 0x85, CHR 0x86, CHR 0x87,
          CHR 0x88, CHR 0x89, CHR 0x8A, CHR 0xA8, CHR 0xA9, CHR 0xAF]
     @ [[CHR 0xE2, CHR 0x81, CHR 0x9F], [CHR 0xE3, CHR 0x80, CHR 0x80]]"

text \<open>The width in bytes of the first white-space encoding beyond ASCII that
  satisfies \<open>P\<close>; 0 when there is none.\<close>

definition runeWidth :: "(string \<Rightarrow> bool) \<Rightarrow> nat" where
  "runeWidth P = (case find P spaceRunes of Some e \<Rightarrow> length e | None \<Rightarrow> 0)"

text \<open>The width in bytes of a white-space character at the start of the string; 0 when
  the string does not start with one.\<close>

definition leadingSpace :: "string \<Rightarrow> nat" where
  "leadingSpace s =
     (if s = [] then 0
      else if asciiSpace (hd s) then 1
      else runeWidth (\<lambda>e. prefix e s))"

text \<open>The same at the end of the string.\<close>

definition trailingSpace :: "string \<Rightarrow> nat" where
  "trailingSpace s =
     (if s = [] then 0
      else if asciiSpace (last s) then 1
      else runeWidth (\<lambda>e. suffix e s))"

lemma runeWidth_le:
  assumes "\<And>e. P e \<Longrightarrow> length e \<le> n"
  shows "runeWidth P \<le> n"
proof (cases "find P spaceRunes")
  case None
  then show ?thesis by (simp add: runeWidth_def)
next
  case (Some e)
  then have "P e" by (auto simp: find_Some_iff)
  with assms Some show ?thesis by (simp add: runeWidth_def)
qed

lemma leadingSpace_le: "leadingSpace s \<le> length s"
proof -
  have "runeWidth (\<lambda>e. prefix e s) \<le> length s"
    by (rule runeWidth_le) (rule prefix_length_le)
  then show ?thesis by (cases s) (simp_all add: leadingSpace_def)
qed

lemma trailingSpace_le: "trailingSpace s \<le> length s"
proof -
  have "runeWidth (\<lambda>e. suffix e s) \<le> length s"
    by (rule runeWidth_le) (rule suffix_length_le)
  then show ?thesis by (cases s) (simp_all add: trailingSpace_def)
qed

function TrimLeft :: "string \<Rightarrow> string" where
  "TrimLeft s = (if leadingSpace s = 0 then s else TrimLeft (drop (leadingSpace s) s))"
  by pat_completeness auto
termination
proof (relation "measure length")
  show "wf (measure length)" by simp
next
  fix s :: string
  assume "leadingSpace s \<noteq> 0"
  moreover have "leadingSpace s \<le> length s" by (rule leadingSpace_le)
  ultimately have "length s - leadingSpace s < length s" by arith
  then show "(drop (leadingSpace s) s, s) \<in> measure length" by simp
qed

function TrimRight :: "string \<Rightarrow> string" where
  "TrimRight s =
     (if trailingSpace s = 0 then s else TrimRight (take (length s - trailingSpace s) s))"
  by pat_completeness auto
termination
proof (relation "measure length")
  show "wf (measure length)" by simp
next
  fix s :: string
  assume "trailingSpace s \<noteq> 0"
  moreover have "trailingSpace s \<le> length s" by (rule trailingSpace_le)
  ultimately have "length s - trailingSpace s < length s" by arith
  then show "(take (length s - trailingSpace s) s, s) \<in> measure length" by simp
qed

declare TrimLeft.simps [simp del] TrimRight.simps [simp del]

definition TrimSpace :: "string \<Rightarrow> string" where
  "TrimSpace s = TrimRight (TrimLeft s)"

section \<open>Package path\<close>

text \<open>
  \<open>path.Clean\<close>, as the Go library writes it: the path is read element by element and
  the result is written to a buffer \<open>out\<close>; \<open>dotdot\<close> is the index in the buffer below
  which a \<open>..\<close> element must not remove anything.
\<close>

text \<open>A \<open>..\<close> element that can backtrack: \<open>out.w--\<close>, then
  \<open>for out.w > dotdot && out.index(out.w) != '/' { out.w-- }\<close>.\<close>

fun backtrack :: "string \<Rightarrow> nat \<Rightarrow> nat \<Rightarrow> nat" where
  "backtrack out dotdot 0 = 0"
| "backtrack out dotdot (Suc w) =
     (if Suc w > dotdot \<and> out ! Suc w \<noteq> CHR ''/'' then backtrack out dotdot w else Suc w)"

text \<open>\<open>r+1 == n || path[r+1] == '/'\<close>, on the rest of the path after the current byte.\<close>

definition elemEnd :: "string \<Rightarrow> bool" where
  "elemEnd p = (case p of [] \<Rightarrow> True | d # _ \<Rightarrow> d = CHR ''/'')"

function cleanLoop :: "bool \<Rightarrow> string \<Rightarrow> nat \<Rightarrow> string \<Rightarrow> string" where
  "cleanLoop rooted out dotdot [] = out"
| "cleanLoop rooted out dotdot (c # p) =
     (if c = CHR ''/'' then cleanLoop rooted out dotdot p
      else if c = CHR ''.'' \<and> elemEnd p then cleanLoop rooted out dotdot p
      else if c = CHR ''.'' \<and> take 1 p = ''.'' \<and> elemEnd (drop 1 p) then
        (if length out > dotdot then
           cleanLoop rooted (take (backtrack out dotdot (length out - 1)) out) dotdot (drop 1 p)
         else if \<not> rooted then
           (let out' = (if length out > 0 then out @ ''/'' else out) @ ''..''
            in cleanLoop rooted out' (length out') (drop 1 p))
         else cleanLoop rooted out dotdot (drop 1 p))
      else
        (let out' = (if rooted \<and> length out \<noteq> 1 \<or> \<not> rooted \<and> length out \<noteq> 0
                     then out @ ''/'' else out)
         in cleanLoop rooted (out' @ takeWhile (\<lambda>x. x \<noteq> CHR ''/'') (c # p)) dotdot
              (dropWhile (\<lambda>x. x \<noteq> CHR ''/'') (c # p))))"
  by pat_completeness auto
termination
proof (relation "measure (\<lambda>(rooted, out, dotdot, p). length p)")
  show "wf (measure (\<lambda>(rooted, out, dotdot, p). length p))" by simp
next
  fix rooted :: bool and out :: string and dotdot :: nat and c :: char and p out' :: string
  assume "c \<noteq> CHR ''/''"
  then have "length (dropWhile (\<lambda>x. x \<noteq> CHR ''/'') (c # p)) \<le> length p"
    by (simp add: length_dropWhile_le)
  then show "((rooted, out' @ takeWhile (\<lambda>x. x \<noteq> CHR ''/'') (c # p), dotdot,
               dropWhile (\<lambda>x. x \<noteq> CHR ''/'') (c # p)), rooted, out, dotdot, c # p)
             \<in> measure (\<lambda>(rooted, out, dotdot, p). length p)"
    by simp
qed simp_all

declare cleanLoop.simps [simp del]

definition Clean :: "string \<Rightarrow> string" where
  "Clean path =
     (if path = [] then ''.''
      else
        let rooted = (hd path = CHR ''/'');
            out = (if rooted then cleanLoop True ''/'' 1 (tl path)
                   else cleanLoop False [] 0 path)
        in if out = [] then ''.'' else out)"

text \<open>
  \<open>path.Join(elem...)\<close>: the elements from the first non-empty one on, joined with
  slashes and cleaned; the empty string when every element is empty.
\<close>

definition path_Join :: "string list \<Rightarrow> string" where
  "path_Join elem =
     (case dropWhile (\<lambda>e. e = []) elem of
        [] \<Rightarrow> []
      | es \<Rightarrow> Clean (Join es ''/''))"

section \<open>Reading the mount table\<close>

text \<open>
  Modelled from the spec: \<open>utils.Reverse\<close> is not among the sources. The spec describes
  it as the reversal of the layer list (section 4.3: \<open>reverse(layers)\<close>; section 4.5:
  reverse the kernel-order layer list).
\<close>

definition Reverse :: "string list \<Rightarrow> string list" where
  "Reverse s = rev s"

record Info =
  Target :: string
  Upper :: string
  Lowers :: "string list"

text \<open>A Go run-time panic: indexing a slice of the given length at the given index.\<close>

datatype panic = IndexOutOfRange nat nat

definition index :: "'a list \<Rightarrow> nat \<Rightarrow> panic + 'a" where
  "index xs i = (if i < length xs then Inr (xs ! i) else Inl (IndexOutOfRange i (length xs)))"

text \<open>
  \<open>mountCmdResultSplit\<close>: the pair \<open>(bool, *Info)\<close> of the source, or the panic of an
  index expression out of range.
\<close>

definition mountCmdResultSplit :: "string \<Rightarrow> string \<Rightarrow> panic + bool \<times> Info option" where
  "mountCmdResultSplit result target =
     (if \<not> Contains result target then Inr (False, None)
      else
        let data = Split result '',upperdir='' in
        if length data < 2 then Inr (False, None)
        else
          (case index data 0 of Inl e \<Rightarrow> Inl e | Inr d0 \<Rightarrow>
          (case index (Split d0 '',lowerdir='') 1 of Inl e \<Rightarrow> Inl e | Inr l \<Rightarrow>
          (let lowers = Split l '':'' in
          (case index data 1 of Inl e \<Rightarrow> Inl e | Inr d1 \<Rightarrow>
          (case index (Split d1 '',workdir='') 0 of Inl e \<Rightarrow> Inl e | Inr u \<Rightarrow>
          (let upper = TrimSpace u in
           Inr (True,
             Some \<lparr>Target = target, Upper = upper, Lowers = Reverse lowers\<rparr>))))))))"


text \<open>
  \<open>GetMountDetails\<close>. \<open>utils.RunSimpleCmd\<close> is not among the sources: it runs a shell
  command and returns its output and an error; it is the parameter \<open>RunSimpleCmd\<close>.
\<close>

record error =
  Error :: string
  IsNotExist :: bool

definition Errorf :: "string \<Rightarrow> error" where
  "Errorf msg = \<lparr>Error = msg, IsNotExist = False\<rparr>"

definition GetMountDetails ::
  "(string \<Rightarrow> string \<times> error option) \<Rightarrow> string \<Rightarrow> panic + bool \<times> Info option" where
  "GetMountDetails RunSimpleCmd target =
     (let cmd = ''mount | grep '' @ target in
      case RunSimpleCmd cmd of
        (result, Some err) \<Rightarrow> Inr (False, None)
      | (result, None) \<Rightarrow> mountCmdResultSplit result target)"

text \<open>\<open>GetRemoteMountDetails\<close>: \<open>Cmd\<close> is the method of the \<open>ssh.Interface\<close> argument.\<close>

definition GetRemoteMountDetails ::
  "(string \<Rightarrow> string \<Rightarrow> string \<times> error option) \<Rightarrow> string \<Rightarrow> string
     \<Rightarrow> panic + bool \<times> Info option" where
  "GetRemoteMountDetails Cmd ip target =
     (case Cmd ip (''mount | grep '' @ target) of
        (result, Some err) \<Rightarrow> Inr (False, None)
      | (result, None) \<Rightarrow> mountCmdResultSplit result target)"

text \<open>
  \<open>GetBuildMountInfo\<close>. The partitions are what \<open>disk.Partitions(true)\<close> returned (its
  error is dropped by the source); of a partition the source reads two fields.
\<close>

record PartitionStat =
  Mountpoint :: string
  Fstype :: string

fun collectMountpoints :: "string \<Rightarrow> PartitionStat list \<Rightarrow> string list \<Rightarrow> string list" where
  "collectMountpoints filter' [] mp = mp"
| "collectMountpoints filter' (p # ps) mp =
     collectMountpoints filter' ps
       (if Fstype p = ''overlay'' \<and> Contains (Mountpoint p) ''sealer''
           \<and> Contains (Mountpoint p) filter'
        then mp @ [Mountpoint p] else mp)"

fun collectInfos ::
  "(string \<Rightarrow> string \<times> error option) \<Rightarrow> string list \<Rightarrow> Info list \<Rightarrow> panic + Info list" where
  "collectInfos RunSimpleCmd [] infos = Inr infos"
| "collectInfos RunSimpleCmd (p # mp) infos =
     (case GetMountDetails RunSimpleCmd p of
        Inl e \<Rightarrow> Inl e
      | Inr (found, info) \<Rightarrow>
          collectInfos RunSimpleCmd mp
            (case info of Some i \<Rightarrow> infos @ [i] | None \<Rightarrow> infos))"

definition GetBuildMountInfo ::
  "(string \<Rightarrow> string \<times> error option) \<Rightarrow> PartitionStat list \<Rightarrow> string \<Rightarrow> panic + Info list" where
  "GetBuildMountInfo RunSimpleCmd ps filter' =
     (let mp = collectMountpoints filter' ps [] in collectInfos RunSimpleCmd mp [])"

section \<open>Choosing the driver\<close>

text \<open>
  What \<open>supportsOverlay\<close> meets: the result of running \<open>modprobe overlay\<close>, and the
  result of opening \<open>/proc/filesystems\<close>, which is an error or a file. Of the file the
  model keeps the texts that the successive calls of the scanner deliver (\<open>s.Text()\<close>,
  one per line) and the result of closing it.
\<close>

record fsFile =
  scanTexts :: "string list"
  closeResult :: "error option"

record probe =
  modprobeRun :: "error option"
  openFilesystems :: "error + fsFile"

text \<open>Modelled from the spec: \<open>logger.Fatal\<close> is not among the sources; the spec
  (section 7) says that it terminates the process.\<close>

datatype exit = Fatal string

text \<open>\<open>for s.Scan() { if s.Text() == "nodev\toverlay" { return true } }; return false\<close>\<close>

fun scanLoop :: "string list \<Rightarrow> bool" where
  "scanLoop [] = False"
| "scanLoop (t # ts) = (if t = ''nodev'' @ [CHR 0x09] @ ''overlay'' then True else scanLoop ts)"

text \<open>The deferred function closes the file when \<open>supportsOverlay\<close> returns, whatever it
  returns.\<close>

definition supportsOverlay :: "probe \<Rightarrow> exit + bool" where
  "supportsOverlay env =
     (case modprobeRun env of
        Some err \<Rightarrow> Inr False
      | None \<Rightarrow>
          (case openFilesystems env of
             Inl err \<Rightarrow> Inr False
           | Inr f \<Rightarrow>
               (let r = scanLoop (scanTexts f) in
                case closeResult f of
                  Some err \<Rightarrow> Inl (Fatal ''failed to close file'')
                | None \<Rightarrow> Inr r)))"

datatype Interface = Overlay2 | Default

definition NewMountDriver :: "probe \<Rightarrow> exit + Interface" where
  "NewMountDriver env =
     (case supportsOverlay env of
        Inl e \<Rightarrow> Inl e
      | Inr b \<Rightarrow> if b then Inr Overlay2 else Inr Default)"

section \<open>Mounting\<close>

text \<open>
  The requests that \<open>Mount\<close> and \<open>Unmount\<close> make of their surroundings:
  \<open>utils.Mkdir\<close>, \<open>os.Stat\<close>, \<open>os.RemoveAll\<close>, \<open>syscall.Mount\<close>, \<open>syscall.Unmount\<close> and the
  two logger calls. The surroundings answer a request with an error or with none
  (\<open>os\<close>; the logger calls return nothing), and every request made is appended to a
  trace.
\<close>

datatype call =
    Mkdir string
  | Stat string
  | RemoveAll string
  | SyscallMount string string string "64 word" string
  | SyscallUnmount string int
  | LoggerWarn string
  | LoggerDebug string

type_synonym os = "call \<Rightarrow> error option"

definition sys :: "os \<Rightarrow> call \<Rightarrow> call list \<Rightarrow> error option \<times> call list" where
  "sys os c tr = (os c, tr @ [c])"

definition MS_RDONLY :: "64 word" where "MS_RDONLY = 0x1"
definition MS_REMOUNT :: "64 word" where "MS_REMOUNT = 0x20"
definition MS_BIND :: "64 word" where "MS_BIND = 0x1000"
definition MNT_FORCE :: int where "MNT_FORCE = 0x1"

definition mount ::
  "os \<Rightarrow> string \<Rightarrow> string \<Rightarrow> string \<Rightarrow> 64 word \<Rightarrow> string \<Rightarrow> call list
     \<Rightarrow> error option \<times> call list" where
  "mount os device target mType flag data tr =
     (case sys os (SyscallMount device target mType flag data) tr of
        (Some err, tr1) \<Rightarrow> (Some err, tr1)
      | (None, tr1) \<Rightarrow>
          if and flag MS_BIND = MS_BIND \<and> and flag MS_RDONLY = MS_RDONLY
          then sys os (SyscallMount device target mType (or flag MS_REMOUNT) data) tr1
          else (None, tr1))"

definition unmount :: "os \<Rightarrow> string \<Rightarrow> int \<Rightarrow> call list \<Rightarrow> error option \<times> call list" where
  "unmount os target flag tr = sys os (SyscallUnmount target flag) tr"

text \<open>The option string of line 104, from the value of \<open>indexOff\<close>.\<close>

definition mountData :: "string \<Rightarrow> string list \<Rightarrow> string \<Rightarrow> string \<Rightarrow> string" where
  "mountData indexOff layers upperLayer workdir =
     indexOff @ ''lowerdir='' @ Join (Reverse layers) '':'' @ '',upperdir='' @ upperLayer
       @ '',workdir='' @ workdir"

text \<open>
  \<open>Overlay2.Mount\<close>. The variable \<open>err\<close> of the source is assigned by \<open>os.Stat\<close> and then
  by \<open>mount\<close>; the deferred function, registered once the work directory exists, reads
  it when \<open>Mount\<close> returns and removes the work directory if it is not nil. Lines 92 to
  102, which set \<open>indexOff\<close>, are \<open>detectIndexOff\<close>.
\<close>

definition detectIndexOff :: "os \<Rightarrow> call list \<Rightarrow> string \<times> call list" where
  "detectIndexOff os tr =
     (let (err, tr1) = sys os (Stat ''/sys/module/overlay/parameters/index'') tr in
      case err of
        None \<Rightarrow> (''index=off,'', tr1)
      | Some e \<Rightarrow>
          if IsNotExist e then ([], tr1)
          else ([], tr1 @ [LoggerWarn
                 (''Unable to detect whether overlay kernel module supports index parameter: ''
                   @ Error e)]))"

definition Mount ::
  "os \<Rightarrow> string \<Rightarrow> string \<Rightarrow> string list \<Rightarrow> call list \<Rightarrow> error option \<times> call list" where
  "Mount os target upperLayer layers tr =
     (if target = [] then (Some (Errorf ''target cannot be empty''), tr)
      else if length layers = 0 then (Some (Errorf ''layers cannot be empty''), tr)
      else
        let workdir = path_Join [target, ''work''] in
        case sys os (Mkdir workdir) tr of
          (Some e, tr1) \<Rightarrow> (Some (Errorf ''create workdir failed''), tr1)
        | (None, tr1) \<Rightarrow>
            (let (indexOff, tr2) = detectIndexOff os tr1;
                 data = mountData indexOff layers upperLayer workdir;
                 tr3 = tr2 @ [LoggerDebug (''mount data : '' @ data)];
                 (err, tr4) = mount os ''overlay'' target ''overlay'' 0 data tr3;
                 ret = (case err of
                          Some e \<Rightarrow>
                            Some (Errorf (''error creating overlay mount to '' @ target
                                    @ '': '' @ Error e))
                        | None \<Rightarrow> None)
             in if err \<noteq> None then (ret, snd (sys os (RemoveAll workdir) tr4))
                else (ret, tr4)))"

text \<open>\<open>Overlay2.Unmount\<close>\<close>

definition Unmount :: "os \<Rightarrow> string \<Rightarrow> call list \<Rightarrow> error option \<times> call list" where
  "Unmount os target tr = unmount os target MNT_FORCE tr"


section \<open>Facts about the string functions\<close>

lemma Contains_sublist: "Contains s sep \<longleftrightarrow> sublist sep s"
  unfolding Contains_def
  by (induction s) (auto simp: sublist_Cons_right)

lemma Split_not_Nil: "sep \<noteq> [] \<Longrightarrow> Split s sep \<noteq> []"
  by (subst Split.simps) (simp split: option.splits)

lemma Split_no_sep: "sep \<noteq> [] \<Longrightarrow> \<not> Contains s sep \<Longrightarrow> Split s sep = [s]"
  by (subst Split.simps) (simp add: Contains_def)

lemma Split_length: "sep \<noteq> [] \<Longrightarrow> length (Split s sep) < 2 \<longleftrightarrow> \<not> Contains s sep"
proof (cases "Index s sep")
  case None
  assume "sep \<noteq> []"
  with None show ?thesis by (simp add: Split_no_sep Contains_def)
next
  case (Some m)
  assume ne: "sep \<noteq> []"
  then have "Split (drop (m + length sep) s) sep \<noteq> []" by (rule Split_not_Nil)
  then have "0 < length (Split (drop (m + length sep) s) sep)" by simp
  with Some ne show ?thesis
    by (subst Split.simps) (simp add: Contains_def)
qed

lemma path_Join_merged: "path_Join [''/merged'', ''work''] = ''/merged/work''"
  by code_simp

lemma Contains_Cons:
  "Contains (x # s) sep \<longleftrightarrow> prefix sep (x # s) \<or> Contains s sep"
  by (simp add: Contains_def)

lemma Index_comma:
  assumes "c \<notin> set m" and "\<not> Contains a (c # m)"
  shows "Index (a @ c # r) (c # m) = map_option (\<lambda>k. length a + k) (Index (c # r) (c # m))"
  using assms(2)
proof (induction a)
  case Nil
  then show ?case by (simp add: option.map_ident)
next
  case (Cons x a)
  from Cons.prems have np: "\<not> prefix (c # m) (x # a)" and nc: "\<not> Contains a (c # m)"
    by (simp_all add: Contains_Cons)
  have "\<not> prefix (c # m) (x # a @ c # r)"
  proof
    assume "prefix (c # m) (x # a @ c # r)"
    then have xc: "x = c" and pm: "prefix m (a @ c # r)" by auto
    from pm consider "prefix m a" | us where "m = a @ us" "prefix us (c # r)"
      by (auto simp: prefix_append)
    then show False
    proof cases
      case 1
      with xc np show False by simp
    next
      case 2
      show False
      proof (cases us)
        case Nil
        with 2 xc np show False by simp
      next
        case (Cons u us')
        with 2 have "u = c" by simp
        with Cons 2 assms(1) show False by simp
      qed
    qed
  qed
  then have "Index ((x # a) @ c # r) (c # m) = map_option Suc (Index (a @ c # r) (c # m))"
    by (simp only: append_Cons Index.simps if_False)
  also have "\<dots> = map_option Suc (map_option (\<lambda>k. length a + k) (Index (c # r) (c # m)))"
    by (simp only: Cons.IH [OF nc])
  also have "\<dots> = map_option (\<lambda>k. length (x # a) + k) (Index (c # r) (c # m))"
    by (simp add: option.map_comp comp_def del: Index.simps)
  finally show ?case .
qed

lemma Index_at_sep:
  assumes "c \<notin> set m" and "\<not> Contains a (c # m)"
  shows "Index (a @ (c # m) @ b) (c # m) = Some (length a)"
  using Index_comma [OF assms, of "m @ b"] by simp

lemma Split_at_sep:
  assumes "c \<notin> set m" and "\<not> Contains a (c # m)"
  shows "Split (a @ (c # m) @ b) (c # m) = a # Split b (c # m)"
  using Index_at_sep [OF assms, of b]
  by (subst Split.simps) simp

lemma Index_append:
  assumes "Index s sep = Some k"
  shows "Index (s @ t) sep = Some k"
  using assms
proof (induction s arbitrary: k)
  case Nil
  then show ?case by (cases t) (simp_all split: if_splits)
next
  case (Cons x s)
  show ?case
  proof (cases "prefix sep (x # s)")
    case True
    then have "prefix sep ((x # s) @ t)" by (rule prefix_prefix)
    with True Cons.prems show ?thesis by simp
  next
    case False
    with Cons.prems obtain j where j: "Index s sep = Some j" "k = Suc j" by auto
    then have "j + length sep \<le> length s" by (simp add: Index_bound)
    then have "length sep \<le> length (x # s)" by simp
    with False have "\<not> prefix sep ((x # s) @ t)"
      using prefix_length_prefix [of sep "(x # s) @ t" "x # s"] by auto
    with Cons.IH [OF j(1)] j(2) show ?thesis by simp
  qed
qed

lemma hd_Split:
  "sep \<noteq> [] \<Longrightarrow>
   hd (Split s sep) = (case Index s sep of None \<Rightarrow> s | Some k \<Rightarrow> take k s)"
  by (subst Split.simps) (simp split: option.splits)


lemma not_Contains_take: "\<not> Contains u sep \<Longrightarrow> \<not> Contains (take k u) sep"
  using sublist_order.order.trans [OF _ sublist_take, of sep k u]
  by (auto simp: Contains_sublist)

lemma Index_workdir_upperdir:
  "Index ('',workdir='' @ c) '',upperdir='' = map_option (\<lambda>k. 9 + k) (Index c '',upperdir='')"
  by (simp add: option.map_comp comp_def eval_nat_numeral)

lemma upper_field:
  assumes "\<not> Contains u '',workdir=''"
  shows "hd (Split (hd (Split (u @ '',workdir='' @ c) '',upperdir='')) '',workdir='')
         = (case Index u '',upperdir='' of None \<Rightarrow> u | Some k \<Rightarrow> take k u)"
proof (cases "Index u '',upperdir=''")
  case (Some k)
  then have "Index (u @ '',workdir='' @ c) '',upperdir='' = Some k" by (rule Index_append)
  moreover from Some have "k \<le> length u" using Index_bound [of u "'',upperdir=''" k] by simp
  ultimately have "hd (Split (u @ '',workdir='' @ c) '',upperdir='') = take k u"
    by (simp add: hd_Split)
  moreover have "Index (take k u) '',workdir='' = None"
    using not_Contains_take [OF assms, of k] by (simp add: Contains_def)
  ultimately show ?thesis using Some by (simp add: hd_Split)
next
  case None
  then have nu: "\<not> Contains u (CHR '','' # ''upperdir='')" by (simp add: Contains_def)
  have "Index (u @ CHR '','' # ''workdir='' @ c) (CHR '','' # ''upperdir='')
        = map_option (\<lambda>k. length u + k) (Index (CHR '','' # ''workdir='' @ c) (CHR '','' # ''upperdir=''))"
    by (rule Index_comma [OF _ nu]) simp
  then have idx: "Index (u @ '',workdir='' @ c) '',upperdir=''
        = map_option (\<lambda>k. length u + (9 + k)) (Index c '',upperdir='')"
    using Index_workdir_upperdir [of c] by (simp add: option.map_comp comp_def del: Index.simps)
  obtain z where z: "hd (Split (u @ '',workdir='' @ c) '',upperdir='') = u @ '',workdir='' @ z"
  proof (cases "Index c '',upperdir=''")
    case None
    with idx have "hd (Split (u @ '',workdir='' @ c) '',upperdir='') = u @ '',workdir='' @ c"
      by (simp add: hd_Split del: Index.simps)
    then show ?thesis by (rule that)
  next
    case (Some j)
    with idx have "hd (Split (u @ '',workdir='' @ c) '',upperdir='')
                   = u @ '',workdir='' @ take j c"
      by (simp add: hd_Split eval_nat_numeral del: Index.simps)
    then show ?thesis by (rule that)
  qed
  have "Index (u @ (CHR '','' # ''workdir='') @ z) (CHR '','' # ''workdir='') = Some (length u)"
    by (rule Index_at_sep) (use assms in simp_all)
  with z None show ?thesis by (simp add: hd_Split del: Index.simps)
qed


lemma index_hd: "xs \<noteq> [] \<Longrightarrow> index xs 0 = Inr (hd xs)"
  by (cases xs) (simp_all add: index_def)

lemma index_second: "xs \<noteq> [] \<Longrightarrow> index (x # xs) 1 = Inr (hd xs)"
  by (cases xs) (simp_all add: index_def)

lemma parser_overlay_line:
  assumes a: "\<not> Contains a '',upperdir=''"
    and u: "\<not> Contains u '',workdir=''"
    and t: "Contains (a @ '',upperdir='' @ u @ '',workdir='' @ c) target"
  shows "mountCmdResultSplit (a @ '',upperdir='' @ u @ '',workdir='' @ c) target =
     (case index (Split a '',lowerdir='') 1 of
        Inl e \<Rightarrow> Inl e
      | Inr l \<Rightarrow>
          Inr (True, Some \<lparr>Target = target,
                 Upper = TrimSpace (case Index u '',upperdir='' of
                                      None \<Rightarrow> u | Some k \<Rightarrow> take k u),
                 Lowers = Reverse (Split l '':'')\<rparr>))"
proof -
  define rest where "rest = Split (u @ '',workdir='' @ c) '',upperdir=''"
  have rest: "rest \<noteq> []" unfolding rest_def by (rule Split_not_Nil) simp
  have "Split (a @ (CHR '','' # ''upperdir='') @ u @ '',workdir='' @ c) (CHR '','' # ''upperdir='')
        = a # Split (u @ '',workdir='' @ c) (CHR '','' # ''upperdir='')"
    by (rule Split_at_sep) (use a in simp_all)
  then have data: "Split (a @ '',upperdir='' @ u @ '',workdir='' @ c) '',upperdir='' = a # rest"
    by (simp add: rest_def)
  have len: "\<not> length (a # rest) < 2" using rest by (cases rest) simp_all
  have i0: "index (a # rest) 0 = Inr a" by (simp add: index_def)
  have i1: "index (a # rest) 1 = Inr (hd rest)" using rest by (rule index_second)
  have "Split (hd rest) '',workdir='' \<noteq> []" by (rule Split_not_Nil) simp
  then have i2: "index (Split (hd rest) '',workdir='') 0 = Inr (hd (Split (hd rest) '',workdir=''))"
    by (rule index_hd)
  have up: "hd (Split (hd rest) '',workdir='')
            = (case Index u '',upperdir='' of None \<Rightarrow> u | Some k \<Rightarrow> take k u)"
    unfolding rest_def using u by (rule upper_field)
  show ?thesis
    unfolding mountCmdResultSplit_def data Let_def
    using t len
    by (simp add: i0 i1 [unfolded One_nat_def] i2 up del: Index.simps split: sum.splits)
qed


lemma Contains_append_left: "Contains s sep \<Longrightarrow> Contains (s @ t) sep"
  using Index_append [of s sep _ t] by (auto simp: Contains_def)

lemma not_Contains_comma_append:
  assumes "c \<notin> set m" and "\<not> Contains x (c # m)" and "\<not> Contains (c # y) (c # m)"
  shows "\<not> Contains (x @ c # y) (c # m)"
  using Index_comma [OF assms(1,2), of y] assms(3) by (simp add: Contains_def del: Index.simps)

lemma not_Contains_char_append:
  assumes "d \<notin> set sep" and "sep \<noteq> []"
    and "\<not> Contains e sep" and "\<not> Contains r sep"
  shows "\<not> Contains (e @ d # r) sep"
proof
  assume "Contains (e @ d # r) sep"
  then have "sublist sep (e @ d # r)" by (simp add: Contains_sublist)
  then consider "sublist sep e" | "sublist sep (d # r)"
    | xs1 xs2 where "sep = xs1 @ xs2" "suffix xs1 e" "prefix xs2 (d # r)"
    by (auto simp: sublist_append)
  then show False
  proof cases
    case 1
    with assms(3) show False by (simp add: Contains_sublist)
  next
    case 2
    then have "prefix sep (d # r) \<or> sublist sep r" by (simp add: sublist_Cons_right)
    with assms(1,2,4) show False by (cases sep) (auto simp: Contains_sublist)
  next
    case 3
    show False
    proof (cases xs2)
      case Nil
      with 3 have "sublist sep e" by (auto simp: suffix_imp_sublist)
      with assms(3) show False by (simp add: Contains_sublist)
    next
      case (Cons z zs)
      with 3 have "z = d" by simp
      with Cons 3 assms(1) show False by simp
    qed
  qed
qed

lemma Join_free:
  assumes "sep \<noteq> []" and "d \<notin> set sep"
  shows "\<forall>l\<in>set ls. \<not> Contains l sep \<Longrightarrow> \<not> Contains (Join ls [d]) sep"
proof (induction ls "[d]" rule: Join.induct)
  case 1
  from assms(1) show ?case by (cases sep) (simp_all add: Contains_def)
next
  case (2 e)
  then show ?case by simp
next
  case (3 e v va)
  then have "\<not> Contains e sep" and "\<not> Contains (Join (v # va) [d]) sep" by simp_all
  with assms have "\<not> Contains (e @ d # Join (v # va) [d]) sep"
    by (intro not_Contains_char_append)
  then show ?case by simp
qed

lemma Split_Join:
  "ls \<noteq> [] \<Longrightarrow> \<forall>l\<in>set ls. \<not> Contains l [d] \<Longrightarrow> Split (Join ls [d]) [d] = ls"
proof (induction ls "[d]" rule: Join.induct)
  case 1
  then show ?case by simp
next
  case (2 e)
  then show ?case by (simp add: Split_no_sep)
next
  case (3 e v va)
  then have e: "\<not> Contains e [d]" and r: "Split (Join (v # va) [d]) [d] = v # va" by simp_all
  have "Split (e @ [d] @ Join (v # va) [d]) [d] = e # Split (Join (v # va) [d]) [d]"
    by (rule Split_at_sep) (use e in simp_all)
  with r show ?case by simp
qed

section \<open>Facts about the path functions\<close>

lemma takeWhile_slash:
  "takeWhile (\<lambda>x. x \<noteq> CHR ''/'') (xs @ CHR ''/'' # ys) = takeWhile (\<lambda>x. x \<noteq> CHR ''/'') xs"
  by (induction xs) simp_all

lemma dropWhile_slash:
  "dropWhile (\<lambda>x. x \<noteq> CHR ''/'') (xs @ CHR ''/'' # ys)
     = dropWhile (\<lambda>x. x \<noteq> CHR ''/'') xs @ CHR ''/'' # ys"
  by (induction xs) simp_all

lemma cleanLoop_work_Nil:
  "cleanLoop rooted out dotdot ''/work''
     = (if rooted \<and> length out \<noteq> 1 \<or> \<not> rooted \<and> length out \<noteq> 0 then out @ ''/'' else out)
       @ ''work''"
  by (simp add: cleanLoop.simps elemEnd_def)

lemma cleanLoop_work:
  "cleanLoop rooted out dotdot (p @ ''/work'')
     = (let b = cleanLoop rooted out dotdot p
        in (if rooted \<and> length b \<noteq> 1 \<or> \<not> rooted \<and> length b \<noteq> 0 then b @ ''/'' else b)
           @ ''work'')"
proof (induction rooted out dotdot p rule: cleanLoop.induct)
  case (1 rooted out dotdot)
  show ?case
    using cleanLoop_work_Nil [of rooted out dotdot] by (simp add: cleanLoop.simps(1))
next
  case (2 rooted out dotdot c p)
  let ?w = "''/work''"
  have e1: "elemEnd (q @ ?w) = elemEnd q" for q by (cases q) (simp_all add: elemEnd_def)
  have e2: "(take 1 (p @ ?w) = ''.'') = (take 1 p = ''.'')" by (cases p) simp_all
  have e3: "drop 1 (p @ ?w) = drop 1 p @ ?w" if "take 1 p = ''.''"
    using that by (cases p) simp_all
  have e6: "(take 1 p = ''.'' \<and> elemEnd (drop 1 (p @ ?w)))
            = (take 1 p = ''.'' \<and> elemEnd (drop 1 p))"
    using e1 [of "drop 1 p"] by (cases p) auto
  have e4: "takeWhile (\<lambda>x. x \<noteq> CHR ''/'') (c # p @ ?w) = takeWhile (\<lambda>x. x \<noteq> CHR ''/'') (c # p)"
    using takeWhile_slash [of "c # p" "''work''"] by simp
  have e5: "dropWhile (\<lambda>x. x \<noteq> CHR ''/'') (c # p @ ?w)
              = dropWhile (\<lambda>x. x \<noteq> CHR ''/'') (c # p) @ ?w"
    using dropWhile_slash [of "c # p" "''work''"] by simp
  note L = cleanLoop.simps(2) [of rooted out dotdot c "p @ ?w"]
  note R = cleanLoop.simps(2) [of rooted out dotdot c p]
  consider (slash) "c = CHR ''/''"
    | (dot) "c \<noteq> CHR ''/''" "c = CHR ''.'' \<and> elemEnd p"
    | (dotdot) "c \<noteq> CHR ''/''" "\<not> (c = CHR ''.'' \<and> elemEnd p)"
        "c = CHR ''.'' \<and> take 1 p = ''.'' \<and> elemEnd (drop 1 p)"
    | (elem) "c \<noteq> CHR ''/''" "\<not> (c = CHR ''.'' \<and> elemEnd p)"
        "\<not> (c = CHR ''.'' \<and> take 1 p = ''.'' \<and> elemEnd (drop 1 p))"
    by blast
  then show ?case
  proof cases
    case slash
    with "2.IH"(1) show ?thesis unfolding append_Cons L R by simp
  next
    case dot
    with "2.IH"(2) show ?thesis unfolding append_Cons L R e1 by simp
  next
    case dotdot
    then have t1: "take 1 p = ''.''" by simp
    note d = e3 [OF t1]
    show ?thesis
    proof (cases "length out > dotdot")
      case True
      with dotdot "2.IH"(3) show ?thesis unfolding append_Cons L R e1 e2 d by simp
    next
      case False
      show ?thesis
      proof (cases rooted)
        case True
        with False dotdot "2.IH"(5) show ?thesis unfolding append_Cons L R e1 e2 d by simp
      next
        case nr: False
        from "2.IH"(4) [OF dotdot False nr refl]
        show ?thesis using False dotdot nr
          unfolding append_Cons L R e1 e2 d by (simp add: Let_def)
      qed
    qed
  next
    case elem
    define out' where "out' = (if rooted \<and> length out \<noteq> 1 \<or> \<not> rooted \<and> length out \<noteq> 0
                     then out @ ''/'' else out)"
    have l: "cleanLoop rooted out dotdot ((c # p) @ ?w)
             = cleanLoop rooted (out' @ takeWhile (\<lambda>x. x \<noteq> CHR ''/'') (c # p)) dotdot
                 (dropWhile (\<lambda>x. x \<noteq> CHR ''/'') (c # p) @ ?w)"
      unfolding append_Cons L e1 e2 e6 e4 e5 Let_def out'_def [symmetric]
      using elem by (simp only: if_False)
    have r: "cleanLoop rooted out dotdot (c # p)
             = cleanLoop rooted (out' @ takeWhile (\<lambda>x. x \<noteq> CHR ''/'') (c # p)) dotdot
                 (dropWhile (\<lambda>x. x \<noteq> CHR ''/'') (c # p))"
      unfolding R Let_def out'_def [symmetric]
      using elem by (simp only: if_False)
    from "2.IH"(6) [OF elem out'_def]
    show ?thesis unfolding l r .
  qed
qed


lemma Clean_work:
  assumes "Clean t = t" and "t \<noteq> ''/''" and "t \<noteq> ''.''"
  shows "Clean (t @ ''/work'') = t @ ''/work''"
proof -
  from assms(1) have ne: "t \<noteq> []" by (auto simp: Clean_def)
  then obtain x xs where t: "t = x # xs" by (cases t) auto
  show ?thesis
  proof (cases "x = CHR ''/''")
    case True
    with assms(1) t have o: "cleanLoop True ''/'' 1 xs = t"
      by (simp add: Clean_def Let_def split: if_splits)
    with t True assms(2) have "length (cleanLoop True ''/'' 1 xs) \<noteq> 1" by auto
    with o show ?thesis using t True
      by (simp add: Clean_def Let_def cleanLoop_work)
  next
    case False
    with assms(1,3) t have o: "cleanLoop False [] 0 t = t"
      by (simp add: Clean_def Let_def split: if_splits)
    have "cleanLoop False [] 0 (t @ ''/work'') = t @ ''/work''"
      using ne by (simp add: cleanLoop_work o Let_def)
    with t False show ?thesis by (simp add: Clean_def Let_def)
  qed
qed

section \<open>The parser\<close>

text \<open>
  C6. For every line and target, the parser returns found = false and no Info when the
  line does not contain the target, and also when the line contains no
  \<open>,upperdir=\<close> marker.
\<close>

theorem parser_not_found:
  "\<not> Contains line target \<or> \<not> Contains line '',upperdir='' \<Longrightarrow>
   mountCmdResultSplit line target = Inr (False, None)"
  using Split_length [of "'',upperdir=''" line]
  by (auto simp: mountCmdResultSplit_def Let_def)

theorem parser_not_found_witness:
  "\<not> Contains ''tmpfs on /run type tmpfs (rw,nosuid)'' ''/merged''
   \<and> mountCmdResultSplit ''tmpfs on /run type tmpfs (rw,nosuid)'' ''/merged'' = Inr (False, None)
   \<and> Contains ''tmpfs on /merged type tmpfs (rw,nosuid)'' ''/merged''
   \<and> \<not> Contains ''tmpfs on /merged type tmpfs (rw,nosuid)'' '',upperdir=''
   \<and> mountCmdResultSplit ''tmpfs on /merged type tmpfs (rw,nosuid)'' ''/merged''
       = Inr (False, None)"
proof -
  have a: "\<not> Contains ''tmpfs on /run type tmpfs (rw,nosuid)'' ''/merged''"
    by code_simp
  have b: "Contains ''tmpfs on /merged type tmpfs (rw,nosuid)'' ''/merged''"
    by code_simp
  have c: "\<not> Contains ''tmpfs on /merged type tmpfs (rw,nosuid)'' '',upperdir=''"
    by code_simp
  show ?thesis
    using a b c parser_not_found [OF disjI1 [OF a]]
      parser_not_found [OF disjI2 [OF c], of "''/merged''"]
    by simp
qed

text \<open>
  C9. The claim is that the index expression of line 166 is always within bounds. It
  is not: on a line that contains the target and \<open>,upperdir=\<close> but has no \<open>,lowerdir=\<close>
  before it, the split at \<open>,lowerdir=\<close> has one field and the access to field 1
  panics. The option string that \<open>Mount\<close> builds when the index flag is absent is such a
  line.
\<close>

theorem parser_index_out_of_range:
  "Contains ''lowerdir=b:a,upperdir=/up,workdir=/merged/work'' ''/merged''
   \<and> Contains ''lowerdir=b:a,upperdir=/up,workdir=/merged/work'' '',upperdir=''
   \<and> mountCmdResultSplit ''lowerdir=b:a,upperdir=/up,workdir=/merged/work'' ''/merged''
       = Inl (IndexOutOfRange 1 1)"
  by code_simp

text \<open>
  C10. Whenever the parser returns found = true, the Target field of the Info it
  returns is the target argument, whatever mount point the line names.
\<close>

theorem parser_target_verbatim:
  "mountCmdResultSplit line target = Inr (True, info) \<Longrightarrow>
   \<exists>i. info = Some i \<and> Target i = target"
  by (auto simp: mountCmdResultSplit_def Let_def split: if_splits sum.splits)

theorem parser_target_verbatim_witness:
  "mountCmdResultSplit
     ''overlay on /merged2 type overlay (rw,lowerdir=b:a,upperdir=/up,workdir=/merged2/work)''
     ''/merged''
   = Inr (True, Some \<lparr>Target = ''/merged'', Upper = ''/up'', Lowers = [''a'', ''b'']\<rparr>)
   \<and> (\<exists>i. Some \<lparr>Target = ''/merged'', Upper = ''/up'', Lowers = [''a'', ''b'']\<rparr> = Some i
          \<and> Target i = ''/merged'')"
proof -
  have h: "mountCmdResultSplit
     ''overlay on /merged2 type overlay (rw,lowerdir=b:a,upperdir=/up,workdir=/merged2/work)''
     ''/merged''
   = Inr (True, Some \<lparr>Target = ''/merged'', Upper = ''/up'', Lowers = [''a'', ''b'']\<rparr>)"
    by code_simp
  from h parser_target_verbatim [OF h] show ?thesis by (rule conjI)
qed

lemma lowerdir_no_upperdir:
  "\<not> Contains J '',upperdir='' \<Longrightarrow> \<not> Contains ('',lowerdir='' @ J) '',upperdir=''"
  by (simp add: Contains_def)


text \<open>
  C1, as amended. Let the layers be a non-empty list whose elements hold no \<open>:\<close> and
  none of the three markers, and let the upper directory hold neither \<open>,upperdir=\<close>
  nor \<open>,workdir=\<close> and have no white space at either end. Let a line consist of some
  text, the option string that \<open>Mount\<close> builds, and some more text, such that the text
  before \<open>lowerdir=\<close> ends in a comma and holds neither \<open>,lowerdir=\<close> nor
  \<open>,upperdir=\<close> before it. If the line contains the target, the parser returns
  found = true with the original layers and the original upper directory.
\<close>

theorem parse_inverts_mountData:
  assumes ne: "layers \<noteq> []"
    and ls: "\<forall>l\<in>set layers. \<not> Contains l '':'' \<and> \<not> Contains l '',lowerdir=''
                \<and> \<not> Contains l '',upperdir='' \<and> \<not> Contains l '',workdir=''"
    and u1: "\<not> Contains upperDir '',upperdir=''"
    and u2: "\<not> Contains upperDir '',workdir=''"
    and u3: "TrimSpace upperDir = upperDir"
    and line: "line = pre @ mountData indexOff layers upperDir workdir @ post"
    and pre: "pre @ indexOff = p @ '',''"
    and p1: "\<not> Contains p '',lowerdir=''"
    and p2: "\<not> Contains p '',upperdir=''"
    and t: "Contains line target"
  shows "mountCmdResultSplit line target
         = Inr (True, Some \<lparr>Target = target, Upper = upperDir, Lowers = layers\<rparr>)"
proof -
  define J where "J = Join (rev layers) '':''"
  define a where "a = p @ '',lowerdir='' @ J"
  have rl: "rev layers \<noteq> []" using ne by simp
  have Jlo: "\<not> Contains J '',lowerdir=''"
    unfolding J_def by (rule Join_free) (use ls in simp_all)
  have Jup: "\<not> Contains J '',upperdir=''"
    unfolding J_def by (rule Join_free) (use ls in simp_all)
  have Jsplit: "Split J '':'' = rev layers"
    unfolding J_def by (rule Split_Join [OF rl]) (use ls in simp)
  have "line = (pre @ indexOff) @ ''lowerdir='' @ J @ '',upperdir='' @ upperDir @ '',workdir=''
                 @ workdir @ post"
    by (simp add: line mountData_def J_def Reverse_def)
  then have shape: "line = a @ '',upperdir='' @ upperDir @ '',workdir='' @ (workdir @ post)"
    by (simp add: pre a_def)
  have "\<not> Contains (p @ CHR '','' # (''lowerdir='' @ J)) (CHR '','' # ''upperdir='')"
    by (rule not_Contains_comma_append) (use p2 lowerdir_no_upperdir [OF Jup] in simp_all)
  then have aup: "\<not> Contains a '',upperdir=''" by (simp add: a_def)
  have "Split (p @ (CHR '','' # ''lowerdir='') @ J) (CHR '','' # ''lowerdir='')
        = p # Split J (CHR '','' # ''lowerdir='')"
    by (rule Split_at_sep) (use p1 in simp_all)
  then have "Split a '',lowerdir='' = [p, J]"
    using Jlo by (simp add: a_def Split_no_sep)
  then have lo: "index (Split a '',lowerdir='') 1 = Inr J" by (simp add: index_def)
  have up: "Index upperDir '',upperdir='' = None" using u1 by (simp add: Contains_def)
  have "mountCmdResultSplit (a @ '',upperdir='' @ upperDir @ '',workdir='' @ (workdir @ post)) target
        = Inr (True, Some \<lparr>Target = target, Upper = TrimSpace upperDir,
                 Lowers = Reverse (Split J '':'')\<rparr>)"
    using parser_overlay_line [OF aup u2, of "workdir @ post" target] t
    by (simp only: shape [symmetric] lo up sum.case option.case)
  then show ?thesis by (simp only: shape [symmetric] u3 Jsplit Reverse_def rev_rev_ident)
qed


theorem parse_inverts_mountData_witness:
  "mountCmdResultSplit
     (''overlay on /merged type overlay (rw,relatime,''
        @ mountData [] [''base'', ''app''] ''/up'' (path_Join [''/merged'', ''work'']) @ '')'')
     ''/merged''
   = Inr (True, Some \<lparr>Target = ''/merged'', Upper = ''/up'', Lowers = [''base'', ''app'']\<rparr>)
   \<and> mountCmdResultSplit
     (''overlay on /merged type overlay (rw,relatime,''
        @ mountData ''index=off,'' [''base'', ''app''] ''/up'' (path_Join [''/merged'', ''work''])
        @ '')'')
     ''/merged''
   = Inr (True, Some \<lparr>Target = ''/merged'', Upper = ''/up'', Lowers = [''base'', ''app'']\<rparr>)"
proof -
  have ne: "[''base'', ''app''] \<noteq> []" by simp
  have ls: "\<forall>l\<in>set [''base'', ''app'']. \<not> Contains l '':'' \<and> \<not> Contains l '',lowerdir=''
                \<and> \<not> Contains l '',upperdir='' \<and> \<not> Contains l '',workdir=''"
    by code_simp
  have u1: "\<not> Contains ''/up'' '',upperdir=''" by code_simp
  have u2: "\<not> Contains ''/up'' '',workdir=''" by code_simp
  have u3: "TrimSpace ''/up'' = ''/up''" by code_simp
  have pre1: "''overlay on /merged type overlay (rw,relatime,'' @ []
              = ''overlay on /merged type overlay (rw,relatime'' @ '',''"
    by simp
  have p1: "\<not> Contains ''overlay on /merged type overlay (rw,relatime'' '',lowerdir=''"
    by code_simp
  have p2: "\<not> Contains ''overlay on /merged type overlay (rw,relatime'' '',upperdir=''"
    by code_simp
  have t1: "Contains (''overlay on /merged type overlay (rw,relatime,''
        @ mountData [] [''base'', ''app''] ''/up'' (path_Join [''/merged'', ''work'']) @ '')'')
        ''/merged''"
    by code_simp
  have pre2: "''overlay on /merged type overlay (rw,relatime,'' @ ''index=off,''
              = ''overlay on /merged type overlay (rw,relatime,index=off'' @ '',''"
    by simp
  have q1: "\<not> Contains ''overlay on /merged type overlay (rw,relatime,index=off'' '',lowerdir=''"
    by code_simp
  have q2: "\<not> Contains ''overlay on /merged type overlay (rw,relatime,index=off'' '',upperdir=''"
    by code_simp
  have t2: "Contains (''overlay on /merged type overlay (rw,relatime,''
        @ mountData ''index=off,'' [''base'', ''app''] ''/up'' (path_Join [''/merged'', ''work''])
        @ '')'')
        ''/merged''"
    by code_simp
  show ?thesis
    using parse_inverts_mountData [OF ne ls u1 u2 u3 refl pre1 p1 p2 t1]
      parse_inverts_mountData [OF ne ls u1 u2 u3 refl pre2 q1 q2 t2]
    by (rule conjI)
qed

text \<open>
  The claim C1 as stated puts no condition on the upper directory: an upper directory
  with a leading space comes back without it, because the parser trims white space.
  And a line that is the option string alone, without the index flag, has no
  \<open>,lowerdir=\<close> marker: the parser panics on it.
\<close>

theorem parse_inverts_mountData_counterexample:
  "mountCmdResultSplit
     (''overlay on /merged type overlay (rw,relatime,''
        @ mountData [] [''base'', ''app''] '' /up'' (path_Join [''/merged'', ''work'']) @ '')'')
     ''/merged''
   = Inr (True, Some \<lparr>Target = ''/merged'', Upper = ''/up'', Lowers = [''base'', ''app'']\<rparr>)
   \<and> ''/up'' \<noteq> '' /up''
   \<and> Contains (mountData [] [''base'', ''app''] ''/up'' (path_Join [''/merged'', ''work'']))
         ''/merged''
   \<and> mountCmdResultSplit
         (mountData [] [''base'', ''app''] ''/up'' (path_Join [''/merged'', ''work'']))
         ''/merged''
       = Inl (IndexOutOfRange 1 1)"
  by code_simp

text \<open>
  C7, as amended. For every output of the query, of one line or of many,
  \<open>GetMountDetails\<close> and \<open>GetRemoteMountDetails\<close> hand the whole output to the parser,
  not its first line: their result is that of parsing the whole output. That result
  is the one of parsing the first line alone whenever the first line contains the
  target and has a \<open>,upperdir=\<close> marker followed by a \<open>,workdir=\<close> marker.
\<close>

theorem lookup_parses_whole_output:
  "(RunSimpleCmd (''mount | grep '' @ target) = (result, None) \<longrightarrow>
      GetMountDetails RunSimpleCmd target = mountCmdResultSplit result target)
   \<and> (Cmd ip (''mount | grep '' @ target) = (result, None) \<longrightarrow>
      GetRemoteMountDetails Cmd ip target = mountCmdResultSplit result target)
   \<and> (firstLine = a @ '',upperdir='' @ u @ '',workdir='' @ c
        \<and> \<not> Contains a '',upperdir='' \<and> \<not> Contains u '',workdir=''
        \<and> Contains firstLine target \<and> result = firstLine @ CHR 0x0A # rest \<longrightarrow>
      mountCmdResultSplit result target = mountCmdResultSplit firstLine target)"
proof -
  have whole: "GetMountDetails RunSimpleCmd target = mountCmdResultSplit result target"
    if "RunSimpleCmd (''mount | grep '' @ target) = (result, None)"
    using that by (simp add: GetMountDetails_def)
  have remote: "GetRemoteMountDetails Cmd ip target = mountCmdResultSplit result target"
    if "Cmd ip (''mount | grep '' @ target) = (result, None)"
    using that by (simp add: GetRemoteMountDetails_def)
  have first: "mountCmdResultSplit result target = mountCmdResultSplit firstLine target"
    if firstLine: "firstLine = a @ '',upperdir='' @ u @ '',workdir='' @ c"
      and a: "\<not> Contains a '',upperdir=''" and u: "\<not> Contains u '',workdir=''"
      and t: "Contains firstLine target" and out: "result = firstLine @ CHR 0x0A # rest"
  proof -
    have t1: "Contains (a @ '',upperdir='' @ u @ '',workdir='' @ c) target"
      using firstLine t by simp
    have "result = a @ '',upperdir='' @ u @ '',workdir='' @ (c @ CHR 0x0A # rest)"
      using firstLine out by simp
    moreover have
      "Contains (a @ '',upperdir='' @ u @ '',workdir='' @ (c @ CHR 0x0A # rest)) target"
      using Contains_append_left [OF t1, of "CHR 0x0A # rest"] by simp
    ultimately show ?thesis
      using parser_overlay_line [OF a u, of "c @ CHR 0x0A # rest" target]
        parser_overlay_line [OF a u t1] firstLine
      by (simp only:)
  qed
  from whole remote first show ?thesis by blast
qed

theorem lookup_parses_whole_output_witness:
  "GetMountDetails
     (\<lambda>cmd. (''overlay on /merged type overlay (rw,lowerdir=b:a,upperdir=/up,workdir=/merged/work)''
               @ CHR 0x0A # ''overlay on /merged2 type overlay (rw,lowerdir=d:c,upperdir=/up2,workdir=/merged2/work)'',
             None))
     ''/merged''
   = mountCmdResultSplit
       (''overlay on /merged type overlay (rw,lowerdir=b:a,upperdir=/up,workdir=/merged/work)''
         @ CHR 0x0A # ''overlay on /merged2 type overlay (rw,lowerdir=d:c,upperdir=/up2,workdir=/merged2/work)'')
       ''/merged''
   \<and> GetRemoteMountDetails
     (\<lambda>ip cmd. (''overlay on /merged type overlay (rw,lowerdir=b:a,upperdir=/up,workdir=/merged/work)''
               @ CHR 0x0A # ''overlay on /merged2 type overlay (rw,lowerdir=d:c,upperdir=/up2,workdir=/merged2/work)'',
             None))
     ''192.168.0.2'' ''/merged''
   = mountCmdResultSplit
       (''overlay on /merged type overlay (rw,lowerdir=b:a,upperdir=/up,workdir=/merged/work)''
         @ CHR 0x0A # ''overlay on /merged2 type overlay (rw,lowerdir=d:c,upperdir=/up2,workdir=/merged2/work)'')
       ''/merged''
   \<and> mountCmdResultSplit
       (''overlay on /merged type overlay (rw,lowerdir=b:a,upperdir=/up,workdir=/merged/work)''
         @ CHR 0x0A # ''overlay on /merged2 type overlay (rw,lowerdir=d:c,upperdir=/up2,workdir=/merged2/work)'')
       ''/merged''
   = mountCmdResultSplit
       ''overlay on /merged type overlay (rw,lowerdir=b:a,upperdir=/up,workdir=/merged/work)''
       ''/merged''
   \<and> mountCmdResultSplit
       ''overlay on /merged type overlay (rw,lowerdir=b:a,upperdir=/up,workdir=/merged/work)''
       ''/merged''
     = Inr (True, Some \<lparr>Target = ''/merged'', Upper = ''/up'', Lowers = [''a'', ''b'']\<rparr>)"
proof -
  let ?l1 = "''overlay on /merged type overlay (rw,lowerdir=b:a,upperdir=/up,workdir=/merged/work)''"
  let ?rest = "''overlay on /merged2 type overlay (rw,lowerdir=d:c,upperdir=/up2,workdir=/merged2/work)''"
  have h1: "?l1 = ''overlay on /merged type overlay (rw,lowerdir=b:a'' @ '',upperdir='' @ ''/up''
                    @ '',workdir='' @ ''/merged/work)''"
    by simp
  have h2: "\<not> Contains ''overlay on /merged type overlay (rw,lowerdir=b:a'' '',upperdir=''"
    by code_simp
  have h3: "\<not> Contains ''/up'' '',workdir=''" by code_simp
  have h4: "Contains ?l1 ''/merged''" by code_simp
  have r: "mountCmdResultSplit ?l1 ''/merged''
     = Inr (True, Some \<lparr>Target = ''/merged'', Upper = ''/up'', Lowers = [''a'', ''b'']\<rparr>)"
    by code_simp
  note T = lookup_parses_whole_output [where RunSimpleCmd = "\<lambda>cmd. (?l1 @ CHR 0x0A # ?rest, None)"
      and Cmd = "\<lambda>ip cmd. (?l1 @ CHR 0x0A # ?rest, None)" and ip = "''192.168.0.2''"
      and target = "''/merged''" and result = "?l1 @ CHR 0x0A # ?rest" and firstLine = ?l1
      and a = "''overlay on /merged type overlay (rw,lowerdir=b:a''" and u = "''/up''"
      and c = "''/merged/work)''" and rest = ?rest]
  have g: "GetMountDetails (\<lambda>cmd. (?l1 @ CHR 0x0A # ?rest, None)) ''/merged''
           = mountCmdResultSplit (?l1 @ CHR 0x0A # ?rest) ''/merged''"
    using T by blast
  have g': "GetRemoteMountDetails (\<lambda>ip cmd. (?l1 @ CHR 0x0A # ?rest, None)) ''192.168.0.2''
              ''/merged''
           = mountCmdResultSplit (?l1 @ CHR 0x0A # ?rest) ''/merged''"
    using T by blast
  have f: "mountCmdResultSplit (?l1 @ CHR 0x0A # ?rest) ''/merged''
           = mountCmdResultSplit ?l1 ''/merged''"
    using T h1 h2 h3 h4 by blast
  from g g' f r show ?thesis by (intro conjI)
qed

text \<open>
  The claim C7 as stated fails when the first line is not an overlay entry: the parser
  reads the layers and the upper directory of a later line, where parsing the first
  line alone finds nothing.
\<close>

theorem lookup_parses_whole_output_counterexample:
  "GetMountDetails
     (\<lambda>cmd. (''tmpfs on /merged type tmpfs (rw)'' @ [CHR 0x0A]
              @ ''overlay on /merged/o type overlay (rw,lowerdir=b:a,upperdir=/up,workdir=/merged/o/work)''
              @ [CHR 0x0A], None))
     ''/merged''
   = Inr (True, Some \<lparr>Target = ''/merged'', Upper = ''/up'', Lowers = [''a'', ''b'']\<rparr>)
   \<and> Contains ''tmpfs on /merged type tmpfs (rw)'' ''/merged''
   \<and> mountCmdResultSplit ''tmpfs on /merged type tmpfs (rw)'' ''/merged'' = Inr (False, None)"
  by code_simp

section \<open>The enumeration of build mounts\<close>

lemma collectMountpoints_eq:
  "collectMountpoints filter' ps mp =
     mp @ map Mountpoint
            (filter (\<lambda>p. Fstype p = ''overlay'' \<and> Contains (Mountpoint p) ''sealer''
                          \<and> Contains (Mountpoint p) filter') ps)"
  by (induction ps arbitrary: mp) simp_all

lemma collectInfos_eq:
  "collectInfos RunSimpleCmd mp infos = Inr r \<Longrightarrow>
   r = infos @ concat (map (\<lambda>m. case GetMountDetails RunSimpleCmd m of
                                   Inr (found, Some i) \<Rightarrow> [i] | _ \<Rightarrow> []) mp)"
proof (induction mp arbitrary: infos)
  case Nil
  then show ?case by simp
next
  case (Cons m mp)
  show ?case
  proof (cases "GetMountDetails RunSimpleCmd m")
    case (Inl e)
    with Cons.prems show ?thesis by simp
  next
    case (Inr fi)
    obtain found info where fi: "fi = (found, info)" by (cases fi)
    show ?thesis
    proof (cases info)
      case None
      with Cons.prems Inr fi have "collectInfos RunSimpleCmd mp infos = Inr r" by simp
      from Cons.IH [OF this] Inr fi None show ?thesis by simp
    next
      case (Some i)
      with Cons.prems Inr fi have "collectInfos RunSimpleCmd mp (infos @ [i]) = Inr r" by simp
      from Cons.IH [OF this] Inr fi Some show ?thesis by simp
    qed
  qed
qed

lemma GetMountDetails_Target:
  "GetMountDetails RunSimpleCmd m = Inr (found, Some i) \<Longrightarrow> Target i = m"
  by (auto simp: GetMountDetails_def mountCmdResultSplit_def Let_def
      split: prod.splits option.splits if_splits sum.splits)


text \<open>
  C8. When \<open>GetBuildMountInfo\<close> returns, its result holds, in the order of the
  enumeration, the Info of each partition whose file-system type is \<open>overlay\<close> and
  whose mount point contains both \<open>sealer\<close> and the filter, and for which the lookup
  gave an Info; so every entry comes from such a partition, and its Target is the mount
  point of that partition.
\<close>

theorem GetBuildMountInfo_entries:
  assumes "GetBuildMountInfo RunSimpleCmd ps filter' = Inr infos"
  shows "infos = concat (map (\<lambda>p. case GetMountDetails RunSimpleCmd (Mountpoint p) of
                                       Inr (found, Some i) \<Rightarrow> [i] | _ \<Rightarrow> [])
                   (filter (\<lambda>p. Fstype p = ''overlay'' \<and> Contains (Mountpoint p) ''sealer''
                                 \<and> Contains (Mountpoint p) filter') ps))
       \<and> (\<forall>i\<in>set infos. \<exists>p\<in>set ps. Fstype p = ''overlay''
              \<and> Contains (Mountpoint p) ''sealer'' \<and> Contains (Mountpoint p) filter'
              \<and> Target i = Mountpoint p
              \<and> (\<exists>found. GetMountDetails RunSimpleCmd (Mountpoint p) = Inr (found, Some i)))"
proof -
  let ?keep = "\<lambda>p. Fstype p = ''overlay'' \<and> Contains (Mountpoint p) ''sealer''
                    \<and> Contains (Mountpoint p) filter'"
  let ?get = "\<lambda>m. case GetMountDetails RunSimpleCmd m of
                     Inr (found, Some i) \<Rightarrow> [i] | _ \<Rightarrow> []"
  from assms have "infos = [] @ concat (map ?get (map Mountpoint (filter ?keep ps)))"
    unfolding GetBuildMountInfo_def Let_def collectMountpoints_eq
    by (intro collectInfos_eq) simp
  then have eq: "infos = concat (map (\<lambda>p. ?get (Mountpoint p)) (filter ?keep ps))"
    by (simp add: comp_def)
  have "\<exists>p\<in>set ps. ?keep p \<and> Target i = Mountpoint p
           \<and> (\<exists>found. GetMountDetails RunSimpleCmd (Mountpoint p) = Inr (found, Some i))"
    if "i \<in> set infos" for i
  proof -
    from that eq obtain p where p: "p \<in> set ps" "?keep p" "i \<in> set (?get (Mountpoint p))"
      by auto
    from p(3) obtain found where
      f: "GetMountDetails RunSimpleCmd (Mountpoint p) = Inr (found, Some i)"
      by (cases "GetMountDetails RunSimpleCmd (Mountpoint p)")
        (auto split: option.splits prod.splits)
    with p GetMountDetails_Target [OF f] show ?thesis by blast
  qed
  with eq show ?thesis by blast
qed

theorem GetBuildMountInfo_entries_witness:
  "GetBuildMountInfo
     (\<lambda>cmd. if cmd = ''mount | grep /var/lib/sealer/build/a''
             then (''overlay on /var/lib/sealer/build/a type overlay (rw,lowerdir=l2:l1,upperdir=/u,workdir=/w)'', None)
             else ([], Some \<lparr>Error = ''exit status 1'', IsNotExist = False\<rparr>))
     [\<lparr>Mountpoint = ''/var/lib/sealer/build/b'', Fstype = ''overlay''\<rparr>,
      \<lparr>Mountpoint = ''/var/lib/sealer/build/a'', Fstype = ''ext4''\<rparr>,
      \<lparr>Mountpoint = ''/var/lib/docker/build/a'', Fstype = ''overlay''\<rparr>,
      \<lparr>Mountpoint = ''/var/lib/sealer/build/a'', Fstype = ''overlay''\<rparr>,
      \<lparr>Mountpoint = ''/var/lib/sealer/other'', Fstype = ''overlay''\<rparr>]
     ''build''
   = Inr [\<lparr>Target = ''/var/lib/sealer/build/a'', Upper = ''/u'', Lowers = [''l1'', ''l2'']\<rparr>]
   \<and> [\<lparr>Target = ''/var/lib/sealer/build/a'', Upper = ''/u'', Lowers = [''l1'', ''l2'']\<rparr>]
     = concat (map (\<lambda>p. case GetMountDetails
                              (\<lambda>cmd. if cmd = ''mount | grep /var/lib/sealer/build/a''
                                 then (''overlay on /var/lib/sealer/build/a type overlay (rw,lowerdir=l2:l1,upperdir=/u,workdir=/w)'', None)
                                 else ([], Some \<lparr>Error = ''exit status 1'', IsNotExist = False\<rparr>))
                              (Mountpoint p) of
                            Inr (found, Some i) \<Rightarrow> [i] | _ \<Rightarrow> [])
               (filter (\<lambda>p. Fstype p = ''overlay'' \<and> Contains (Mountpoint p) ''sealer''
                             \<and> Contains (Mountpoint p) ''build'')
                  [\<lparr>Mountpoint = ''/var/lib/sealer/build/b'', Fstype = ''overlay''\<rparr>,
                   \<lparr>Mountpoint = ''/var/lib/sealer/build/a'', Fstype = ''ext4''\<rparr>,
                   \<lparr>Mountpoint = ''/var/lib/docker/build/a'', Fstype = ''overlay''\<rparr>,
                   \<lparr>Mountpoint = ''/var/lib/sealer/build/a'', Fstype = ''overlay''\<rparr>,
                   \<lparr>Mountpoint = ''/var/lib/sealer/other'', Fstype = ''overlay''\<rparr>]))"
proof -
  have h: "GetBuildMountInfo
     (\<lambda>cmd. if cmd = ''mount | grep /var/lib/sealer/build/a''
             then (''overlay on /var/lib/sealer/build/a type overlay (rw,lowerdir=l2:l1,upperdir=/u,workdir=/w)'', None)
             else ([], Some \<lparr>Error = ''exit status 1'', IsNotExist = False\<rparr>))
     [\<lparr>Mountpoint = ''/var/lib/sealer/build/b'', Fstype = ''overlay''\<rparr>,
      \<lparr>Mountpoint = ''/var/lib/sealer/build/a'', Fstype = ''ext4''\<rparr>,
      \<lparr>Mountpoint = ''/var/lib/docker/build/a'', Fstype = ''overlay''\<rparr>,
      \<lparr>Mountpoint = ''/var/lib/sealer/build/a'', Fstype = ''overlay''\<rparr>,
      \<lparr>Mountpoint = ''/var/lib/sealer/other'', Fstype = ''overlay''\<rparr>]
     ''build''
   = Inr [\<lparr>Target = ''/var/lib/sealer/build/a'', Upper = ''/u'', Lowers = [''l1'', ''l2'']\<rparr>]"
    by code_simp
  from GetBuildMountInfo_entries [OF h] have
    "[\<lparr>Target = ''/var/lib/sealer/build/a'', Upper = ''/u'', Lowers = [''l1'', ''l2'']\<rparr>]
     = concat (map (\<lambda>p. case GetMountDetails
                              (\<lambda>cmd. if cmd = ''mount | grep /var/lib/sealer/build/a''
                                 then (''overlay on /var/lib/sealer/build/a type overlay (rw,lowerdir=l2:l1,upperdir=/u,workdir=/w)'', None)
                                 else ([], Some \<lparr>Error = ''exit status 1'', IsNotExist = False\<rparr>))
                              (Mountpoint p) of
                            Inr (found, Some i) \<Rightarrow> [i] | _ \<Rightarrow> [])
               (filter (\<lambda>p. Fstype p = ''overlay'' \<and> Contains (Mountpoint p) ''sealer''
                             \<and> Contains (Mountpoint p) ''build'')
                  [\<lparr>Mountpoint = ''/var/lib/sealer/build/b'', Fstype = ''overlay''\<rparr>,
                   \<lparr>Mountpoint = ''/var/lib/sealer/build/a'', Fstype = ''ext4''\<rparr>,
                   \<lparr>Mountpoint = ''/var/lib/docker/build/a'', Fstype = ''overlay''\<rparr>,
                   \<lparr>Mountpoint = ''/var/lib/sealer/build/a'', Fstype = ''overlay''\<rparr>,
                   \<lparr>Mountpoint = ''/var/lib/sealer/other'', Fstype = ''overlay''\<rparr>]))"
    by (rule conjunct1)
  with h show ?thesis by (rule conjI)
qed

section \<open>The driver\<close>

lemma scanLoop_iff: "scanLoop ts \<longleftrightarrow> ''nodev'' @ [CHR 0x09] @ ''overlay'' \<in> set ts"
  by (induction ts) auto

text \<open>
  C5. If the probe reports that overlay is not supported, \<open>NewMountDriver\<close> returns the
  fallback driver; if it reports that it is supported, the overlay driver. The probe
  reports unsupported when the module could not be loaded; when the module is loaded
  and the registry file is opened and closed, it reports whether one of the scanned
  lines is the marker \<open>nodev<TAB>overlay\<close>; and when none of the scanned lines is the
  marker, every driver that is returned is the fallback. (A run in which closing the
  registry file fails ends in \<open>logger.Fatal\<close> and returns no driver.)
\<close>

theorem NewMountDriver_variant:
  "(supportsOverlay env = Inr False \<longrightarrow> NewMountDriver env = Inr Default)
   \<and> (supportsOverlay env = Inr True \<longrightarrow> NewMountDriver env = Inr Overlay2)
   \<and> (modprobeRun env \<noteq> None \<longrightarrow> supportsOverlay env = Inr False)
   \<and> (\<forall>f. modprobeRun env = None \<and> openFilesystems env = Inr f \<and> closeResult f = None \<longrightarrow>
          supportsOverlay env = Inr (''nodev'' @ [CHR 0x09] @ ''overlay'' \<in> set (scanTexts f)))
   \<and> ((\<forall>f. openFilesystems env = Inr f \<longrightarrow>
            ''nodev'' @ [CHR 0x09] @ ''overlay'' \<notin> set (scanTexts f)) \<longrightarrow>
        supportsOverlay env \<noteq> Inr True \<and> (\<forall>d. NewMountDriver env = Inr d \<longrightarrow> d = Default))"
  by (auto simp: NewMountDriver_def supportsOverlay_def Let_def scanLoop_iff
      split: option.splits sum.splits if_splits)

theorem NewMountDriver_variant_witness:
  "supportsOverlay \<lparr>modprobeRun = Some (Errorf ''exit status 1''),
                     openFilesystems = Inl (Errorf ''not opened'')\<rparr> = Inr False
   \<and> NewMountDriver \<lparr>modprobeRun = Some (Errorf ''exit status 1''),
                       openFilesystems = Inl (Errorf ''not opened'')\<rparr> = Inr Default
   \<and> supportsOverlay \<lparr>modprobeRun = None, openFilesystems =
        Inr \<lparr>scanTexts = [''nodev'' @ [CHR 0x09] @ ''sysfs'', ''nodev'' @ [CHR 0x09] @ ''overlay''],
             closeResult = None\<rparr>\<rparr> = Inr True
   \<and> NewMountDriver \<lparr>modprobeRun = None, openFilesystems =
        Inr \<lparr>scanTexts = [''nodev'' @ [CHR 0x09] @ ''sysfs'', ''nodev'' @ [CHR 0x09] @ ''overlay''],
             closeResult = None\<rparr>\<rparr> = Inr Overlay2
   \<and> ''nodev'' @ [CHR 0x09] @ ''overlay''
         \<notin> set [''nodev'' @ [CHR 0x09] @ ''sysfs'', [CHR 0x09] @ ''ext4'']
   \<and> NewMountDriver \<lparr>modprobeRun = None, openFilesystems =
        Inr \<lparr>scanTexts = [''nodev'' @ [CHR 0x09] @ ''sysfs'', [CHR 0x09] @ ''ext4''],
             closeResult = None\<rparr>\<rparr> = Inr Default"
  using NewMountDriver_variant [of "\<lparr>modprobeRun = Some (Errorf ''exit status 1''),
                       openFilesystems = Inl (Errorf ''not opened'')\<rparr>"]
    NewMountDriver_variant [of "\<lparr>modprobeRun = None, openFilesystems =
        Inr \<lparr>scanTexts = [''nodev'' @ [CHR 0x09] @ ''sysfs'', ''nodev'' @ [CHR 0x09] @ ''overlay''],
             closeResult = None\<rparr>\<rparr>"]
    NewMountDriver_variant [of "\<lparr>modprobeRun = None, openFilesystems =
        Inr \<lparr>scanTexts = [''nodev'' @ [CHR 0x09] @ ''sysfs'', [CHR 0x09] @ ''ext4''],
             closeResult = None\<rparr>\<rparr>"]
  by (simp add: supportsOverlay_def NewMountDriver_def)

section \<open>Mount\<close>

text \<open>
  C3. Called with an empty target or with no layer, \<open>Mount\<close> returns the error of its
  argument check (\<open>target cannot be empty\<close>, \<open>layers cannot be empty\<close>) and makes no
  request at all: no directory is created and nothing is mounted.
\<close>

theorem Mount_invalid_argument:
  "target = [] \<or> layers = [] \<Longrightarrow>
   Mount os target upperLayer layers tr =
     (Some (Errorf (if target = [] then ''target cannot be empty''
                    else ''layers cannot be empty'')), tr)"
  by (auto simp: Mount_def)

theorem Mount_invalid_argument_witness:
  "Mount (\<lambda>c. None) [] ''/up'' [''base''] [] = (Some (Errorf ''target cannot be empty''), [])
   \<and> Mount (\<lambda>c. None) ''/merged'' ''/up'' [] [] = (Some (Errorf ''layers cannot be empty''), [])"
  using Mount_invalid_argument [of "[]" "[''base'']" "\<lambda>c. None" "''/up''" "[]"]
    Mount_invalid_argument [of "''/merged''" "[]" "\<lambda>c. None" "''/up''" "[]"]
  by simp

lemma detectIndexOff_trace:
  "\<exists>w. snd (detectIndexOff os tr) = tr @ Stat ''/sys/module/overlay/parameters/index'' # w
       \<and> (\<forall>p. RemoveAll p \<notin> set w)"
  by (auto simp: detectIndexOff_def sys_def Let_def split: option.splits)

text \<open>
  C4. When the arguments are valid and the work directory has been created, \<open>Mount\<close>
  issues the mount. If the mount fails with an error \<open>e\<close>, \<open>Mount\<close> then removes the work
  directory, whatever the removal answers, and returns the error
  \<open>error creating overlay mount to <target>: <e>\<close>. If the mount succeeds, \<open>Mount\<close>
  returns no error and has made no removal.
\<close>

theorem Mount_syscall_outcome:
  assumes "target \<noteq> []" and "layers \<noteq> []"
    and "workdir = path_Join [target, ''work'']"
    and "os (Mkdir workdir) = None"
    and "detectIndexOff os (tr @ [Mkdir workdir]) = (indexOff, tr2)"
    and "data = mountData indexOff layers upperLayer workdir"
    and "tr4 = tr2 @ [LoggerDebug (''mount data : '' @ data),
                      SyscallMount ''overlay'' target ''overlay'' 0 data]"
  shows "(\<forall>e. os (SyscallMount ''overlay'' target ''overlay'' 0 data) = Some e \<longrightarrow>
            Mount os target upperLayer layers tr =
              (Some (Errorf (''error creating overlay mount to '' @ target @ '': '' @ Error e)),
               tr4 @ [RemoveAll workdir]))
       \<and> (os (SyscallMount ''overlay'' target ''overlay'' 0 data) = None \<longrightarrow>
            Mount os target upperLayer layers tr = (None, tr4)
            \<and> (\<forall>p. RemoveAll p \<notin> set (drop (length tr) tr4)))"
proof -
  have flags: "and (0::64 word) MS_BIND \<noteq> MS_BIND" by (simp add: MS_BIND_def)
  obtain w where w: "tr2 = (tr @ [Mkdir workdir]) @ Stat ''/sys/module/overlay/parameters/index'' # w"
      "\<forall>p. RemoveAll p \<notin> set w"
    using detectIndexOff_trace [of os "tr @ [Mkdir workdir]"] assms(5) by auto
  have fail: "Mount os target upperLayer layers tr =
              (Some (Errorf (''error creating overlay mount to '' @ target @ '': '' @ Error e)),
               tr4 @ [RemoveAll workdir])"
    if "os (SyscallMount ''overlay'' target ''overlay'' 0 data) = Some e" for e
    using assms that flags by (simp add: Mount_def Let_def sys_def mount_def)
  have ok: "Mount os target upperLayer layers tr = (None, tr4)"
    if "os (SyscallMount ''overlay'' target ''overlay'' 0 data) = None"
    using assms that flags by (simp add: Mount_def Let_def sys_def mount_def)
  have "\<forall>p. RemoveAll p \<notin> set (drop (length tr) tr4)"
    using w assms(7) by simp
  with fail ok show ?thesis by blast
qed

theorem Mount_syscall_outcome_witness:
  "Mount (\<lambda>c. case c of
             SyscallMount _ _ _ _ _ \<Rightarrow> Some \<lparr>Error = ''invalid argument'', IsNotExist = False\<rparr>
           | RemoveAll _ \<Rightarrow> Some \<lparr>Error = ''device or resource busy'', IsNotExist = False\<rparr>
           | _ \<Rightarrow> None)
     ''/merged'' ''/up'' [''base'', ''app''] []
   = (Some (Errorf ''error creating overlay mount to /merged: invalid argument''),
      [Mkdir ''/merged/work'', Stat ''/sys/module/overlay/parameters/index'',
       LoggerDebug ''mount data : index=off,lowerdir=app:base,upperdir=/up,workdir=/merged/work'',
       SyscallMount ''overlay'' ''/merged'' ''overlay'' 0
         ''index=off,lowerdir=app:base,upperdir=/up,workdir=/merged/work'',
       RemoveAll ''/merged/work''])
   \<and> Mount (\<lambda>c. None) ''/merged'' ''/up'' [''base'', ''app''] []
   = (None,
      [Mkdir ''/merged/work'', Stat ''/sys/module/overlay/parameters/index'',
       LoggerDebug ''mount data : index=off,lowerdir=app:base,upperdir=/up,workdir=/merged/work'',
       SyscallMount ''overlay'' ''/merged'' ''overlay'' 0
         ''index=off,lowerdir=app:base,upperdir=/up,workdir=/merged/work''])"
  using Mount_syscall_outcome [of "''/merged''" "[''base'', ''app'']" "''/merged/work''"
      "\<lambda>c. case c of
             SyscallMount _ _ _ _ _ \<Rightarrow> Some \<lparr>Error = ''invalid argument'', IsNotExist = False\<rparr>
           | RemoveAll _ \<Rightarrow> Some \<lparr>Error = ''device or resource busy'', IsNotExist = False\<rparr>
           | _ \<Rightarrow> None" "[]" "''index=off,''"
      "[Mkdir ''/merged/work'', Stat ''/sys/module/overlay/parameters/index'']"
      "''index=off,lowerdir=app:base,upperdir=/up,workdir=/merged/work''" "''/up''"
      "[Mkdir ''/merged/work'', Stat ''/sys/module/overlay/parameters/index'',
       LoggerDebug ''mount data : index=off,lowerdir=app:base,upperdir=/up,workdir=/merged/work'',
       SyscallMount ''overlay'' ''/merged'' ''overlay'' 0
         ''index=off,lowerdir=app:base,upperdir=/up,workdir=/merged/work'']"]
    Mount_syscall_outcome [of "''/merged''" "[''base'', ''app'']" "''/merged/work''"
      "\<lambda>c. None" "[]" "''index=off,''"
      "[Mkdir ''/merged/work'', Stat ''/sys/module/overlay/parameters/index'']"
      "''index=off,lowerdir=app:base,upperdir=/up,workdir=/merged/work''" "''/up''"
      "[Mkdir ''/merged/work'', Stat ''/sys/module/overlay/parameters/index'',
       LoggerDebug ''mount data : index=off,lowerdir=app:base,upperdir=/up,workdir=/merged/work'',
       SyscallMount ''overlay'' ''/merged'' ''overlay'' 0
         ''index=off,lowerdir=app:base,upperdir=/up,workdir=/merged/work'']"]
  by (simp add: path_Join_merged detectIndexOff_def sys_def mountData_def Reverse_def Errorf_def)


text \<open>
  C2, as amended. For a non-empty target and a non-empty layer list, the option string
  that \<open>Mount\<close> passes to the mount call is the optional \<open>index=off,\<close>, then
  \<open>lowerdir=\<close> and the layers in reverse order joined by \<open>:\<close>, then \<open>,upperdir=\<close> and
  the upper directory, then \<open>,workdir=\<close> and \<open>path.Join(target, "work")\<close>, which is the
  cleaned form of target/work. It is the target followed by \<open>/work\<close> whenever the
  target is a cleaned path other than \<open>/\<close> and \<open>.\<close>; for the layers base and app, the
  upper directory /up and the target /merged, without the flag, it is
  \<open>lowerdir=app:base,upperdir=/up,workdir=/merged/work\<close>.
\<close>

theorem Mount_option_string:
  assumes "target \<noteq> []" and "layers \<noteq> []"
    and "indexOff = (if os (Stat ''/sys/module/overlay/parameters/index'') = None
                     then ''index=off,'' else [])"
    and "data = indexOff @ ''lowerdir='' @ Join (rev layers) '':'' @ '',upperdir='' @ upperLayer
                  @ '',workdir='' @ Clean (target @ ''/work'')"
  shows "(\<forall>device tgt mType flag d.
            SyscallMount device tgt mType flag d
              \<in> set (snd (Mount os target upperLayer layers [])) \<longrightarrow> d = data)
       \<and> (os (Mkdir (Clean (target @ ''/work''))) = None \<longrightarrow>
            SyscallMount ''overlay'' target ''overlay'' 0 data
              \<in> set (snd (Mount os target upperLayer layers [])))
       \<and> (Clean target = target \<and> target \<noteq> ''/'' \<and> target \<noteq> ''.'' \<longrightarrow>
            data = indexOff @ ''lowerdir='' @ Join (rev layers) '':'' @ '',upperdir='' @ upperLayer
                     @ '',workdir='' @ target @ ''/work'')"
proof -
  have flags: "and (0::64 word) MS_BIND \<noteq> MS_BIND" by (simp add: MS_BIND_def)
  have wd: "path_Join [target, ''work''] = Clean (target @ ''/work'')"
    using assms(1) by (simp add: path_Join_def)
  have a: "d = data"
    if "SyscallMount device tgt mType flag d \<in> set (snd (Mount os target upperLayer layers []))"
    for device tgt mType flag d
    using that assms flags
    by (auto simp: Mount_def wd Let_def sys_def mount_def detectIndexOff_def mountData_def
        Reverse_def split: option.splits if_splits prod.splits)
  have b: "SyscallMount ''overlay'' target ''overlay'' 0 data
              \<in> set (snd (Mount os target upperLayer layers []))"
    if "os (Mkdir (Clean (target @ ''/work''))) = None"
    using that assms flags
    by (auto simp: Mount_def wd Let_def sys_def mount_def detectIndexOff_def mountData_def
        Reverse_def split: option.splits if_splits prod.splits)
  have c: "Clean (target @ ''/work'') = target @ ''/work''"
    if "Clean target = target \<and> target \<noteq> ''/'' \<and> target \<noteq> ''.''"
    using that by (intro Clean_work) simp_all
  from a b c assms(4) show ?thesis by auto
qed

theorem Mount_option_string_witness:
  "SyscallMount ''overlay'' ''/merged'' ''overlay'' 0
       ''lowerdir=app:base,upperdir=/up,workdir=/merged/work''
     \<in> set (snd (Mount (\<lambda>c. case c of
                               Stat _ \<Rightarrow> Some \<lparr>Error = ''no such file or directory'',
                                                IsNotExist = True\<rparr>
                             | _ \<Rightarrow> None)
                     ''/merged'' ''/up'' [''base'', ''app''] []))
   \<and> Clean ''/merged'' = ''/merged''"
proof -
  let ?os = "\<lambda>c. case c of
                  Stat _ \<Rightarrow> Some \<lparr>Error = ''no such file or directory'', IsNotExist = True\<rparr>
                | _ \<Rightarrow> None"
  have h1: "''/merged'' \<noteq> []" and h2: "[''base'', ''app''] \<noteq> []" by simp_all
  have h3: "[] = (if ?os (Stat ''/sys/module/overlay/parameters/index'') = None
                   then ''index=off,'' else [])"
    by simp
  have h4: "''lowerdir=app:base,upperdir=/up,workdir=/merged/work''
            = [] @ ''lowerdir='' @ Join (rev [''base'', ''app'']) '':'' @ '',upperdir='' @ ''/up''
                @ '',workdir='' @ Clean (''/merged'' @ ''/work'')"
    by code_simp
  have mk: "?os (Mkdir (Clean (''/merged'' @ ''/work''))) = None" by simp
  have cl: "Clean ''/merged'' = ''/merged''" by code_simp
  from Mount_option_string [where os = ?os and target = "''/merged''"
      and layers = "[''base'', ''app'']" and indexOff = "[]" and upperLayer = "''/up''"
      and data = "''lowerdir=app:base,upperdir=/up,workdir=/merged/work''", OF h1 h2 h3 h4]
    mk cl
  show ?thesis by simp
qed

text \<open>
  The claim C2 as stated, with target/work read as the target followed by \<open>/work\<close>,
  fails for a target that is not a cleaned path: for the target \<open>/merged/\<close> the work
  directory in the option string is \<open>/merged/work\<close>, not \<open>/merged//work\<close>.
\<close>

theorem Mount_option_string_counterexample:
  "SyscallMount ''overlay'' ''/merged/'' ''overlay'' 0
       ''lowerdir=app:base,upperdir=/up,workdir=/merged/work''
     \<in> set (snd (Mount (\<lambda>c. case c of
                               Stat _ \<Rightarrow> Some \<lparr>Error = ''no such file or directory'',
                                                IsNotExist = True\<rparr>
                             | _ \<Rightarrow> None)
                     ''/merged/'' ''/up'' [''base'', ''app''] []))
   \<and> ''lowerdir=app:base,upperdir=/up,workdir=/merged/work''
       \<noteq> ''lowerdir='' @ Join (rev [''base'', ''app'']) '':'' @ '',upperdir='' @ ''/up''
           @ '',workdir='' @ ''/merged/'' @ ''/work''"
  by code_simp

end
